theory Spec2Isabelle
  imports Main "HOL-Library.Multiset"
begin

section \<open>The text statistics tool of test55.py\<close>

text \<open>
  The program reads lines from a file or from standard input, tokenizes every line,
  and prints the number of lines, words and characters and the five most common words.

  A Python \<open>str\<close> is a sequence of code points.  It is modelled by \<open>string\<close>, where
  every \<open>char\<close> stands for one code point of the range U+0000..U+00FF (not for a byte
  of an encoding), so that \<open>length\<close> is Python's \<open>len\<close>.  The library functions
  \<open>str.split\<close>, \<open>str.strip\<close>, \<open>str.lower\<close>, \<open>repr\<close> and \<open>Counter\<close> are embedded as
  they act on that range; texts with other code points, among them U+FFFD, which the
  decoding with \<open>errors="replace"\<close> puts for invalid bytes, are outside the model.
  Python's unbounded integers are \<open>int\<close>.
\<close>

subsection \<open>Library functions on strings\<close>

text \<open>
  \<open>str.isspace\<close> on one code point: TAB..CR, FS..US, SPACE, NEL (U+0085) and
  NO-BREAK SPACE (U+00A0).
\<close>

definition isspace :: "char \<Rightarrow> bool" where
  "isspace c = (let n = (of_char c :: nat) in
     (9 \<le> n \<and> n \<le> 13) \<or> (28 \<le> n \<and> n \<le> 32) \<or> n = 133 \<or> n = 160)"

text \<open>
  \<open>line.split()\<close> without a separator: skip a run of whitespace, stop at the end of
  the string, otherwise cut the piece that runs up to the next whitespace character and
  go on behind it.
\<close>

function py_split :: "string \<Rightarrow> string list" where
  "py_split s = (case dropWhile isspace s of
       [] \<Rightarrow> []
     | c # r \<Rightarrow> (c # takeWhile (\<lambda>x. \<not> isspace x) r)
               # py_split (dropWhile (\<lambda>x. \<not> isspace x) r))"
  by pat_completeness auto
termination
proof (relation "measure length")
  show "wf (measure length)" by simp
next
  fix s :: string and c r
  assume a: "dropWhile isspace s = c # r"
  have "length (dropWhile (\<lambda>x. \<not> isspace x) r) \<le> length r"
    by (rule length_dropWhile_le)
  moreover have "length (c # r) \<le> length s"
    using length_dropWhile_le [of isspace s] a by simp
  ultimately show "(dropWhile (\<lambda>x. \<not> isspace x) r, s) \<in> measure length"
    by simp
qed

declare py_split.simps [simp del]

text \<open>
  \<open>s.strip(chars)\<close>: the characters of \<open>chars\<close> are removed from the left end and from
  the right end for as long as the end character belongs to \<open>chars\<close>.
\<close>

definition py_strip :: "string \<Rightarrow> string \<Rightarrow> string" where
  "py_strip chars s =
     rev (dropWhile (\<lambda>c. c \<in> set chars) (rev (dropWhile (\<lambda>c. c \<in> set chars) s)))"

text \<open>
  \<open>str.lower\<close>: on U+0000..U+00FF the letters with a lowercase partner are A..Z and
  U+00C0..U+00DE without the multiplication sign U+00D7; the partner is 32 code points up.
\<close>

definition lower_char :: "char \<Rightarrow> char" where
  "lower_char c = (let n = (of_char c :: nat) in
     if (65 \<le> n \<and> n \<le> 90) \<or> (192 \<le> n \<and> n \<le> 214) \<or> (216 \<le> n \<and> n \<le> 222)
     then char_of (n + 32) else c)"

definition lower :: "string \<Rightarrow> string" where
  "lower s = map lower_char s"

subsection \<open>tokenize\<close>

text \<open>The argument of both calls of \<open>strip\<close> in \<open>tokenize\<close>.\<close>

definition strip_chars :: string where
  \<open>strip_chars = ''.,!?:;"'()[]{}<>''\<close>

definition tokenize :: "string \<Rightarrow> string list" where
  "tokenize line =
     [lower (py_strip strip_chars token).
        token \<leftarrow> py_split line, py_strip strip_chars token \<noteq> []]"

subsection \<open>Counter\<close>

text \<open>
  A \<open>Counter\<close> is a dictionary from tokens to counts that keeps its keys in the order of
  their first insertion, and \<open>most_common\<close> depends on that order: an association list.
  \<open>counter[elem] = counter.get(elem, 0) + 1\<close> changes the count of a present key in place
  and puts an absent key behind all others.
\<close>

type_synonym counter = "(string \<times> int) list"

fun counter_incr :: "string \<Rightarrow> counter \<Rightarrow> counter" where
  "counter_incr elem [] = [(elem, 1)]"
| "counter_incr elem ((k, v) # kvs) =
     (if k = elem then (k, v + 1) # kvs else (k, v) # counter_incr elem kvs)"

text \<open>\<open>counter.update(iterable)\<close> counts the elements one after the other.\<close>

definition counter_update :: "string list \<Rightarrow> counter \<Rightarrow> counter" where
  "counter_update iterable c = fold counter_incr iterable c"

text \<open>
  \<open>counter.most_common(n)\<close> is \<open>heapq.nlargest(n, counter.items(), key=itemgetter(1))\<close>, which
  is \<open>sorted(counter.items(), key=itemgetter(1), reverse=True)[:n]\<close>: a stable sort by
  descending count, so that items of equal count keep the order of the dictionary.
  \<open>sort_key\<close> is a stable insertion sort by ascending key; the key is the negated count.
\<close>

definition most_common :: "nat \<Rightarrow> counter \<Rightarrow> (string \<times> int) list" where
  "most_common n c = take n (sort_key (\<lambda>(word, cnt). - cnt) c)"

subsection \<open>text_stats\<close>

text \<open>
  The loop of \<open>text_stats\<close> over the lines, with the four local variables as the
  accumulator, in the order of the returned tuple.
\<close>

fun text_stats_loop :: "string list \<Rightarrow> int \<times> int \<times> int \<times> counter \<Rightarrow> int \<times> int \<times> int \<times> counter" where
  "text_stats_loop [] acc = acc"
| "text_stats_loop (line # lines) (line_count, word_count, char_count, counter) =
     (let tokens = tokenize line in
      text_stats_loop lines
        (line_count + 1, word_count + int (length tokens), char_count + int (length line),
         counter_update tokens counter))"

definition text_stats :: "string list \<Rightarrow> int \<times> int \<times> int \<times> counter" where
  "text_stats lines = text_stats_loop lines (0, 0, 0, [])"

subsection \<open>print_stats\<close>

text \<open>The decimal numeral of an integer, as an f-string formats it.\<close>

fun str_nat :: "nat \<Rightarrow> string" where
  "str_nat n = (if n < 10 then [char_of (48 + n)]
                else str_nat (n div 10) @ [char_of (48 + n mod 10)])"

declare str_nat.simps [simp del]

definition str_int :: "int \<Rightarrow> string" where
  "str_int i = (if i < 0 then CHR ''-'' # str_nat (nat (- i)) else str_nat (nat i))"

text \<open>
  \<open>repr\<close> of a string (the conversion \<open>!r\<close>): the quote is the double quote when the
  string has a single quote and no double quote, and the single quote otherwise; the quote
  and the backslash are escaped with a backslash, TAB, LF and CR are written
  \<open>\t\<close>, \<open>\n\<close>, \<open>\r\<close>, and every other code point that is not printable as \<open>\xhh\<close>.
\<close>

definition isprintable :: "char \<Rightarrow> bool" where
  "isprintable c = (let n = (of_char c :: nat) in
     (32 \<le> n \<and> n \<le> 126) \<or> (161 \<le> n \<and> n \<noteq> 173))"

definition hex_digit :: "nat \<Rightarrow> char" where
  "hex_digit d = (if d < 10 then char_of (48 + d) else char_of (87 + d))"

definition repr_char :: "char \<Rightarrow> char \<Rightarrow> string" where
  "repr_char quote c =
     (if c = quote \<or> c = CHR 0x5C then [CHR 0x5C, c]
      else if c = CHR 0x09 then [CHR 0x5C, CHR ''t'']
      else if c = CHR 0x0A then [CHR 0x5C, CHR ''n'']
      else if c = CHR 0x0D then [CHR 0x5C, CHR ''r'']
      else if isprintable c then [c]
      else [CHR 0x5C, CHR ''x'', hex_digit (of_char c div 16), hex_digit (of_char c mod 16)])"

definition py_repr :: "string \<Rightarrow> string" where
  "py_repr s =
     (let quote = (if CHR 0x27 \<in> set s \<and> CHR 0x22 \<notin> set s then CHR 0x22 else CHR 0x27)
      in [quote] @ concat (map (repr_char quote) s) @ [quote])"

text \<open>The lines written to standard output, one string for each call of \<open>print\<close>.\<close>

definition print_stats :: "int \<Rightarrow> int \<Rightarrow> int \<Rightarrow> counter \<Rightarrow> string list" where
  "print_stats line_count word_count char_count counter =
     [''Lines: '' @ str_int line_count,
      ''Words: '' @ str_int word_count,
      ''Characters: '' @ str_int char_count,
      ''Top 5 words:'']
     @ [''  '' @ py_repr word @ '': '' @ str_int cnt. (word, cnt) \<leftarrow> most_common 5 counter]"

subsection \<open>Line sources and main\<close>

text \<open>
  The environment of one run: the files that can be opened, each with the lines that
  iterating over it yields, the lines of standard input, and whether standard input is a
  terminal.  A path that is not in \<open>files\<close> cannot be opened.
\<close>

record world =
  files :: "string \<rightharpoonup> string list"
  stdin_lines :: "string list"
  stdin_isatty :: bool

datatype error = FileNotFoundError string

definition read_lines_from_file :: "string \<Rightarrow> world \<Rightarrow> error + string list" where
  "read_lines_from_file path w =
     (case files w path of None \<Rightarrow> Inl (FileNotFoundError path) | Some ls \<Rightarrow> Inr ls)"

definition read_lines_from_stdin :: "world \<Rightarrow> error + string list" where
  "read_lines_from_stdin w = Inr (stdin_lines w)"

text \<open>
  \<open>main\<close> behind \<open>parser.parse_args\<close>: the argument is \<open>args.path\<close>, which is \<open>None\<close>
  when the command line has no positional argument.  The result is the text written to
  standard output and either the exception that leaves \<open>main\<close> or the returned status.
  \<open>if args.path:\<close> is the truth value of the attribute: \<open>None\<close> and the empty string
  both select standard input.  The generators run only inside \<open>text_stats\<close>, behind the
  prompt and before anything of \<open>print_stats\<close>.
\<close>

definition prompt :: string where
  "prompt = ''Reading from stdin. Type/paste text and press Ctrl-D (Unix) or Ctrl-Z (Windows) to end.''"

definition main :: "string option \<Rightarrow> world \<Rightarrow> string list \<times> (error + int)" where
  "main path w =
     (let (out, lines) =
        (if path \<noteq> None \<and> the path \<noteq> []
         then ([], read_lines_from_file (the path) w)
         else ((if stdin_isatty w then [prompt] else []), read_lines_from_stdin w))
      in case lines of
           Inl e \<Rightarrow> (out, Inl e)
         | Inr ls \<Rightarrow>
             (case text_stats ls of (line_count, word_count, char_count, counter) \<Rightarrow>
                (out @ print_stats line_count word_count char_count counter, Inr 0)))"

text \<open>
  \<open>raise SystemExit(main())\<close>: the exit status of the process is the value that \<open>main\<close>
  returns, and 1 when an exception leaves \<open>main\<close> uncaught.
\<close>

definition run :: "string option \<Rightarrow> world \<Rightarrow> string list \<times> int" where
  "run path w = (case main path w of
       (out, Inl e) \<Rightarrow> (out, 1)
     | (out, Inr status) \<Rightarrow> (out, status))"

section \<open>The tokenizer in the words of the specification\<close>

text \<open>
  A second description of the tokenizer, written from the text of the specification and
  not from the code, to be compared with \<open>tokenize\<close>.  The fixed punctuation set is
  \<open>. , ! ? : ; " ' ( ) [ ] { } < >\<close>.
\<close>

definition punctuation :: "char set" where
  "punctuation = {CHR ''.'', CHR '','', CHR ''!'', CHR ''?'', CHR '':'', CHR '';'', CHR 0x22,
     CHR 0x27, CHR ''('', CHR '')'', CHR ''['', CHR '']'', CHR ''{'', CHR ''}'', CHR ''<'', CHR ''>''}"

text \<open>
  Splitting on runs of whitespace: the line is cut at every whitespace character, and the
  empty pieces that arise between two of them, and at the two ends, are left out.
\<close>

fun fields_ws :: "string \<Rightarrow> string list" where
  "fields_ws [] = [[]]"
| "fields_ws (c # cs) =
     (if isspace c then [] # fields_ws cs
      else (case fields_ws cs of [] \<Rightarrow> [[c]] | piece # pieces \<Rightarrow> (c # piece) # pieces))"

definition spec_split :: "string \<Rightarrow> string list" where
  "spec_split s = filter (\<lambda>piece. piece \<noteq> []) (fields_ws s)"

text \<open>
  Stripping repeats for as long as the first or the last character is in the set.
\<close>

function spec_strip :: "string \<Rightarrow> string" where
  "spec_strip s =
     (if s \<noteq> [] \<and> hd s \<in> punctuation then spec_strip (tl s)
      else if s \<noteq> [] \<and> last s \<in> punctuation then spec_strip (butlast s)
      else s)"
  by pat_completeness auto
termination
  by (relation "measure length") auto

declare spec_strip.simps [simp del]

text \<open>
  Split, strip every piece, lowercase the result, discard the pieces that are empty; the
  order of the line is kept.
\<close>

definition spec_tokenize :: "string \<Rightarrow> string list" where
  "spec_tokenize line =
     filter (\<lambda>t. t \<noteq> []) (map (\<lambda>piece. lower (spec_strip piece)) (spec_split line))"

section \<open>Properties of the aggregator\<close>

subsection \<open>Counting into a Counter\<close>

lemma sum_counter_incr:
  "sum_list (map snd (counter_incr elem c)) = sum_list (map snd c) + 1"
  by (induction c) auto

lemma sum_counter_update:
  "sum_list (map snd (counter_update ts c)) = sum_list (map snd c) + int (length ts)"
  unfolding counter_update_def
  by (induction ts arbitrary: c) (simp_all add: sum_counter_incr)

lemma counter_update_append:
  "counter_update (xs @ ys) c = counter_update ys (counter_update xs c)"
  by (simp add: counter_update_def)

lemma text_stats_loop_closed:
  "text_stats_loop lines (lc, wc, cc, cnt) =
     (lc + int (length lines),
      wc + int (length (concat (map tokenize lines))),
      cc + (\<Sum>line\<leftarrow>lines. int (length line)),
      counter_update (concat (map tokenize lines)) cnt)"
proof (induction lines arbitrary: lc wc cc cnt)
  case Nil
  show ?case by (simp add: counter_update_def)
next
  case (Cons line lines)
  show ?case
    by (simp add: Cons.IH Let_def counter_update_append)
qed

lemma text_stats_closed:
  "text_stats lines =
     (int (length lines),
      int (length (concat (map tokenize lines))),
      (\<Sum>line\<leftarrow>lines. int (length line)),
      counter_update (concat (map tokenize lines)) [])"
  by (simp add: text_stats_def text_stats_loop_closed)

lemma keys_counter_incr:
  "map fst (counter_incr elem c) =
     (if elem \<in> fst ` set c then map fst c else map fst c @ [elem])"
  by (induction c) force+

lemma keys_counter_incr_set:
  "fst ` set (counter_incr elem c) = insert elem (fst ` set c)"
  using keys_counter_incr [of elem c, THEN arg_cong, of set]
  by (auto split: if_splits)

lemma set_keys_counter_update:
  "fst ` set (counter_update ts c) = fst ` set c \<union> set ts"
  unfolding counter_update_def
  by (induction ts arbitrary: c) (simp_all add: keys_counter_incr_set)

lemma distinct_keys_counter_update:
  "distinct (map fst c) \<Longrightarrow> distinct (map fst (counter_update ts c))"
  unfolding counter_update_def
  by (induction ts arbitrary: c) (auto simp: keys_counter_incr)

lemma map_of_counter_incr:
  "map_of (counter_incr elem c) =
     (map_of c)(elem \<mapsto> (case map_of c elem of None \<Rightarrow> 1 | Some v \<Rightarrow> v + 1))"
  by (induction c) (auto simp: fun_eq_iff)

lemma map_of_counter_update:
  "map_of (counter_update ts c) k =
     (if k \<in> set ts \<or> k \<in> set (map fst c)
      then Some ((case map_of c k of None \<Rightarrow> 0 | Some v \<Rightarrow> v) + int (count_list ts k))
      else None)"
  unfolding counter_update_def
proof (induction ts arbitrary: c)
  case Nil
  show ?case by (auto simp: map_of_eq_None_iff rev_image_eqI dest!: map_of_SomeD split: option.splits)
next
  case (Cons t ts)
  note k = keys_counter_incr_set
  show ?case
    by (auto simp: Cons.IH map_of_counter_incr k map_of_eq_None_iff rev_image_eqI dest!: map_of_SomeD split: option.splits)
qed

text \<open>
  C1: for every finite sequence of lines, the word count that \<open>text_stats\<close> returns is
  the sum of all counts of the Counter that it returns.
\<close>

theorem word_count_is_sum_of_counts:
  "(case text_stats lines of (line_count, word_count, char_count, counter) \<Rightarrow>
      word_count = sum_list (map snd counter))"
  by (simp add: text_stats_closed sum_counter_update)

text \<open>
  C6: for every finite sequence of lines, the character count is the sum of the lengths of
  the lines and the line count is their number; a further line adds 1 to the line count
  and its whole length to the character count, and the line terminator is one of the
  characters counted.
\<close>

theorem char_count_is_sum_of_lengths:
  "(case text_stats lines of (line_count, word_count, char_count, counter) \<Rightarrow>
      char_count = (\<Sum>line\<leftarrow>lines. int (length line)) \<and>
      line_count = int (length lines) \<and>
      (case text_stats (lines @ [line]) of (line_count', word_count', char_count', counter') \<Rightarrow>
         line_count' = line_count + 1 \<and> char_count' = char_count + int (length line)))
   \<and> text_stats [''ab'' @ [CHR 0x0A], ''c''] = (2, 2, 4, [(''ab'', 1), (''c'', 1)])"
proof -
  have "text_stats [''ab'' @ [CHR 0x0A], ''c''] = (2, 2, 4, [(''ab'', 1), (''c'', 1)])"
    by code_simp
  then show ?thesis
    by (simp add: text_stats_closed)
qed

text \<open>
  C10: for every finite sequence of lines, the keys of the returned Counter are exactly
  the tokens of the lines, no key occurs twice, and every key has a count of at least 1,
  namely the number of occurrences of the token.
\<close>

theorem counter_keys_are_tokens_with_positive_counts:
  "(case text_stats lines of (line_count, word_count, char_count, counter) \<Rightarrow>
      fst ` set counter = set (concat (map tokenize lines)) \<and>
      distinct (map fst counter) \<and>
      (\<forall>(k, v) \<in> set counter.
         1 \<le> v \<and> v = int (count_list (concat (map tokenize lines)) k)))"
proof -
  define ts where "ts = concat (map tokenize lines)"
  define cnt where "cnt = counter_update ts []"
  have keys: "fst ` set cnt = set ts"
    by (simp add: cnt_def set_keys_counter_update)
  have dist: "distinct (map fst cnt)"
    by (simp add: cnt_def distinct_keys_counter_update)
  have vals: "1 \<le> v \<and> v = int (count_list ts k)" if kv: "(k, v) \<in> set cnt" for k v
  proof -
    have "map_of cnt k = Some v"
      using dist kv by (rule map_of_is_SomeI)
    moreover have "k \<in> set ts"
      using keys kv by force
    ultimately have v: "v = int (count_list ts k)"
      by (simp add: cnt_def map_of_counter_update)
    have "0 < count_list ts k"
      using \<open>k \<in> set ts\<close> count_list_0_iff [of ts k] by simp
    with v show ?thesis by simp
  qed
  show ?thesis
    using keys dist vals
    by (auto simp: text_stats_closed ts_def [symmetric] cnt_def [symmetric])
qed

theorem counter_keys_are_tokens_with_positive_counts_witness:
  "text_stats [''b a. B''] = (1, 3, 6, [(''b'', 2), (''a'', 1)]) \<and>
   {''b'', ''a''} = set (concat (map tokenize [''b a. B''])) \<and>
   2 = int (count_list (concat (map tokenize [''b a. B''])) ''b'')"
proof -
  have e: "text_stats [''b a. B''] = (1, 3, 6, [(''b'', 2), (''a'', 1)])"
    by code_simp
  have "fst ` set [(''b'', 2::int), (''a'', 1)] = set (concat (map tokenize [''b a. B''])) \<and>
        (\<forall>(k, v) \<in> set [(''b'', 2::int), (''a'', 1)].
           1 \<le> v \<and> v = int (count_list (concat (map tokenize [''b a. B''])) k))"
    using counter_keys_are_tokens_with_positive_counts [of "[''b a. B'']"]
    unfolding e by simp
  then have "{''b'', ''a''} = set (concat (map tokenize [''b a. B''])) \<and>
        2 = int (count_list (concat (map tokenize [''b a. B''])) ''b'')"
    by auto
  with e show ?thesis by simp
qed

section \<open>Properties of the tokenizer\<close>

subsection \<open>The code against the specification\<close>

lemma set_strip_chars: "set strip_chars = punctuation"
  by (simp add: strip_chars_def punctuation_def)

lemma fields_ws_nonempty: "fields_ws s \<noteq> []"
  by (induction s) (auto split: list.splits)

lemma spec_split_dropWhile: "spec_split (dropWhile isspace s) = spec_split s"
  by (induction s) (auto simp: spec_split_def)

lemma fields_ws_head:
  "hd (fields_ws r) = takeWhile (\<lambda>x. \<not> isspace x) r \<and>
   filter (\<lambda>piece. piece \<noteq> []) (tl (fields_ws r)) = spec_split (dropWhile (\<lambda>x. \<not> isspace x) r)"
  using fields_ws_nonempty
  by (induction r) (auto simp: spec_split_def split: list.splits)

lemma spec_split_Cons:
  "\<not> isspace c \<Longrightarrow>
   spec_split (c # r) = (c # takeWhile (\<lambda>x. \<not> isspace x) r) # spec_split (dropWhile (\<lambda>x. \<not> isspace x) r)"
  using fields_ws_head [of r] fields_ws_nonempty [of r]
  by (auto simp: spec_split_def split: list.splits)

lemma py_split_spec: "py_split s = spec_split s"
proof (induction s rule: py_split.induct)
  case (1 s)
  show ?case
  proof (cases "dropWhile isspace s")
    case Nil
    have "spec_split s = []"
      using spec_split_dropWhile [of s] unfolding Nil by (simp add: spec_split_def)
    moreover have "py_split s = []"
      by (subst py_split.simps) (simp only: Nil list.case)
    ultimately show ?thesis by simp
  next
    case (Cons c r)
    then have "\<not> isspace c"
      using hd_dropWhile [of isspace s] by simp
    then have "spec_split s = (c # takeWhile (\<lambda>x. \<not> isspace x) r) # spec_split (dropWhile (\<lambda>x. \<not> isspace x) r)"
      using spec_split_dropWhile [of s] Cons by (simp add: spec_split_Cons)
    moreover have "py_split s = (c # takeWhile (\<lambda>x. \<not> isspace x) r) # py_split (dropWhile (\<lambda>x. \<not> isspace x) r)"
      by (subst py_split.simps) (simp only: Cons list.case)
    ultimately show ?thesis using "1.IH" [OF Cons] by simp
  qed
qed

lemma py_strip_Nil: "py_strip chars [] = []"
  by (simp add: py_strip_def)

lemma py_strip_Cons_in: "c \<in> set chars \<Longrightarrow> py_strip chars (c # s) = py_strip chars s"
  by (simp add: py_strip_def)

lemma py_strip_fixed:
  "t \<noteq> [] \<Longrightarrow> hd t \<notin> set chars \<Longrightarrow> last t \<notin> set chars \<Longrightarrow> py_strip chars t = t"
proof -
  assume t: "t \<noteq> []" and h: "hd t \<notin> set chars" and l: "last t \<notin> set chars"
  from t h have a: "dropWhile (\<lambda>c. c \<in> set chars) t = t"
    by (cases t) auto
  from t l have "dropWhile (\<lambda>c. c \<in> set chars) (rev t) = rev t"
    by (cases "rev t") (auto simp: last_rev [symmetric] simp del: last_rev)
  with a show ?thesis by (simp add: py_strip_def)
qed

lemma py_strip_butlast:
  assumes "s \<noteq> []" "hd s \<notin> set chars" "last s \<in> set chars"
  shows "py_strip chars s = py_strip chars (butlast s)"
proof (cases s rule: rev_cases)
  case Nil
  with assms(1) show ?thesis by simp
next
  case (snoc xs x)
  with assms obtain y ys where xs: "xs = y # ys" and y: "y \<notin> set chars"
    by (cases xs) auto
  with snoc assms(3) show ?thesis
    by (simp add: py_strip_def)
qed

lemma py_strip_spec: "py_strip strip_chars s = spec_strip s"
proof (induction s rule: spec_strip.induct)
  case (1 s)
  show ?case
  proof (cases "s \<noteq> [] \<and> hd s \<in> punctuation")
    case True
    then obtain c r where s: "s = c # r" and c: "c \<in> set strip_chars"
      by (cases s) (auto simp: set_strip_chars)
    with True "1.IH"(1) show ?thesis
      by (simp add: spec_strip.simps [of "c # r"] py_strip_Cons_in)
  next
    case False
    note nl = False
    show ?thesis
    proof (cases "s \<noteq> [] \<and> last s \<in> punctuation")
      case True
      with nl have "py_strip strip_chars s = py_strip strip_chars (butlast s)"
        by (intro py_strip_butlast) (auto simp: set_strip_chars)
      with nl True "1.IH"(2) show ?thesis
        by (simp add: spec_strip.simps [of s])
    next
      case False
      with nl have "py_strip strip_chars s = s"
        by (cases "s = []") (auto simp: py_strip_Nil set_strip_chars intro: py_strip_fixed)
      moreover from nl False have "spec_strip s = s"
        by (subst spec_strip.simps) auto
      ultimately show ?thesis by simp
    qed
  qed
qed

lemma lower_Nil_iff: "lower s = [] \<longleftrightarrow> s = []"
  by (simp add: lower_def)

lemma tokenize_spec: "tokenize line = spec_tokenize line"
proof -
  have "[lower (spec_strip token). token \<leftarrow> ps, spec_strip token \<noteq> []] =
        filter (\<lambda>t. t \<noteq> []) (map (\<lambda>piece. lower (spec_strip piece)) ps)" for ps
    by (induction ps) (simp_all add: lower_Nil_iff)
  then show ?thesis
    unfolding tokenize_def spec_tokenize_def py_strip_spec py_split_spec .
qed

subsection \<open>Pieces, stripped pieces and lowercase\<close>

lemma py_split_pieces:
  "p \<in> set (py_split s) \<Longrightarrow> p \<noteq> [] \<and> list_all (\<lambda>c. \<not> isspace c) p \<and> set p \<subseteq> set s"
proof (induction s arbitrary: p rule: py_split.induct)
  case (1 s)
  show ?case
  proof (cases "dropWhile isspace s")
    case Nil
    have "py_split s = []"
      by (subst py_split.simps) (simp only: Nil list.case)
    with "1.prems" show ?thesis by simp
  next
    case (Cons c r)
    have e: "py_split s = (c # takeWhile (\<lambda>x. \<not> isspace x) r) # py_split (dropWhile (\<lambda>x. \<not> isspace x) r)"
      by (subst py_split.simps) (simp only: Cons list.case)
    have c: "\<not> isspace c"
      using hd_dropWhile [of isspace s] Cons by simp
    have sub: "set (c # r) \<subseteq> set s"
      using set_dropWhileD [of _ isspace s] Cons by auto
    show ?thesis
    proof (cases "p = c # takeWhile (\<lambda>x. \<not> isspace x) r")
      case True
      have "list_all (\<lambda>c. \<not> isspace c) (takeWhile (\<lambda>x. \<not> isspace x) r)"
        by (auto simp: list_all_iff dest: set_takeWhileD)
      moreover have "set (takeWhile (\<lambda>x. \<not> isspace x) r) \<subseteq> set r"
        by (auto dest: set_takeWhileD)
      ultimately show ?thesis using True c sub by auto
    next
      case False
      with "1.prems" e have "p \<in> set (py_split (dropWhile (\<lambda>x. \<not> isspace x) r))"
        by simp
      from "1.IH" [OF Cons this] have "p \<noteq> [] \<and> list_all (\<lambda>c. \<not> isspace c) p
          \<and> set p \<subseteq> set (dropWhile (\<lambda>x. \<not> isspace x) r)" .
      moreover have "set (dropWhile (\<lambda>x. \<not> isspace x) r) \<subseteq> set r"
        by (auto dest: set_dropWhileD)
      ultimately show ?thesis using sub by auto
    qed
  qed
qed

lemma py_split_single:
  assumes "s \<noteq> []" "list_all (\<lambda>c. \<not> isspace c) s"
  shows "py_split s = [s]"
proof -
  from assms obtain c r where s: "s = c # r" and c: "\<not> isspace c"
    and r: "list_all (\<lambda>c. \<not> isspace c) r"
    by (cases s) auto
  have d: "dropWhile isspace s = c # r"
    using s c by simp
  have t: "takeWhile (\<lambda>x. \<not> isspace x) r = r"
    using r by (simp add: list_all_iff)
  have n: "dropWhile (\<lambda>x. \<not> isspace x) r = []"
    using r by (simp add: list_all_iff)
  have "py_split [] = []"
    by (subst py_split.simps) simp
  then have "py_split s = [c # r]"
    by (subst py_split.simps) (simp only: d t n list.case)
  with s show ?thesis by simp
qed

lemma py_strip_ends:
  assumes "py_strip chars s \<noteq> []"
  shows "hd (py_strip chars s) \<notin> set chars \<and> last (py_strip chars s) \<notin> set chars"
proof -
  define P where "P = (\<lambda>c. c \<in> set chars)"
  define a where "a = dropWhile P s"
  define b where "b = dropWhile P (rev a)"
  have r: "py_strip chars s = rev b"
    by (simp add: py_strip_def P_def a_def b_def)
  with assms have bne: "b \<noteq> []" by simp
  then have "\<not> P (hd b)"
    unfolding b_def by (rule hd_dropWhile)
  then have l: "\<not> P (last (rev b))"
    using bne by (simp add: last_rev)
  from bne have ane: "a \<noteq> []"
    by (auto simp: b_def)
  then have ha: "\<not> P (hd a)"
    unfolding a_def by (rule hd_dropWhile)
  have "\<exists>xs. rev a = xs @ b"
    unfolding b_def by (metis takeWhile_dropWhile_id)
  then obtain xs where "rev a = xs @ b" ..
  then have "a = rev b @ rev xs"
    by (metis rev_append rev_rev_ident)
  with bne have "hd a = hd (rev b)"
    by simp
  with ha l r show ?thesis by (simp add: P_def)
qed

lemma lower_char_code:
  "(of_char (lower_char c) :: nat) =
     (if (65 \<le> (of_char c :: nat) \<and> (of_char c :: nat) \<le> 90)
         \<or> (192 \<le> (of_char c :: nat) \<and> (of_char c :: nat) \<le> 214)
         \<or> (216 \<le> (of_char c :: nat) \<and> (of_char c :: nat) \<le> 222)
      then of_char c + 32 else of_char c)"
proof -
  define n where "n = (of_char c :: nat)"
  have m: "(n + 32) mod 256 = n + 32" if "n \<le> 222"
    using that by simp
  show ?thesis
    using m by (auto simp: lower_char_def Let_def n_def of_char_of)
qed

lemma isspace_lower_char: "isspace (lower_char c) = isspace c"
  unfolding isspace_def Let_def lower_char_code by auto

lemma lower_char_idem: "lower_char (lower_char c) = lower_char c"
proof -
  have "(of_char (lower_char (lower_char c)) :: nat) = of_char (lower_char c)"
    unfolding lower_char_code [of "lower_char c"] unfolding lower_char_code [of c]
    by auto
  then show ?thesis by (simp only: of_char_eq_iff)
qed

lemma punctuation_code:
  "c \<in> punctuation \<longleftrightarrow>
     (of_char c :: nat) \<in> {46, 44, 33, 63, 58, 59, 34, 39, 40, 41, 91, 93, 123, 125, 60, 62}"
proof -
  have "c \<in> punctuation \<longleftrightarrow> (of_char c :: nat) \<in> of_char ` punctuation"
    by (auto simp: of_char_eq_iff image_iff)
  also have "(of_char ` punctuation :: nat set) = {46, 44, 33, 63, 58, 59, 34, 39, 40, 41, 91, 93, 123, 125, 60, 62}"
    by (simp add: punctuation_def)
  finally show ?thesis .
qed

lemma punctuation_lower_char: "lower_char c \<in> punctuation \<longleftrightarrow> c \<in> punctuation"
  unfolding punctuation_code lower_char_code by auto

lemma py_strip_subset: "set (py_strip chars s) \<subseteq> set s"
proof -
  have "set (dropWhile P xs) \<subseteq> set xs" for P and xs :: string
    by (auto dest: set_dropWhileD)
  then show ?thesis
    unfolding py_strip_def by (metis set_rev subset_trans)
qed

lemma py_strip_all_in: "set s \<subseteq> set chars \<Longrightarrow> py_strip chars s = []"
proof -
  assume "set s \<subseteq> set chars"
  then have "dropWhile (\<lambda>c. c \<in> set chars) s = []"
    unfolding dropWhile_eq_Nil_conv by blast
  then show ?thesis
    unfolding py_strip_def by (simp only: rev.simps dropWhile.simps)
qed

lemma tokenize_concat:
  "tokenize line =
     concat (map (\<lambda>token. if py_strip strip_chars token \<noteq> []
                          then [lower (py_strip strip_chars token)] else []) (py_split line))"
  by (simp add: tokenize_def)

lemma tokenize_mem:
  "t \<in> set (tokenize line) \<longleftrightarrow>
     (\<exists>p \<in> set (py_split line). py_strip strip_chars p \<noteq> [] \<and> t = lower (py_strip strip_chars p))"
  by (auto simp: tokenize_concat split: if_splits)

lemma token_shape:
  assumes "t \<in> set (tokenize line)"
  shows "t \<noteq> [] \<and> list_all (\<lambda>c. \<not> isspace c) t \<and> hd t \<notin> set strip_chars
         \<and> last t \<notin> set strip_chars \<and> lower t = t"
proof -
  from assms obtain p where p: "p \<in> set (py_split line)"
    and ne: "py_strip strip_chars p \<noteq> []" and t: "t = lower (py_strip strip_chars p)"
    unfolding tokenize_mem by blast
  define q where "q = py_strip strip_chars p"
  have tq: "t = map lower_char q"
    by (simp add: t q_def lower_def)
  have qne: "q \<noteq> []"
    using ne by (simp add: q_def)
  have ends: "hd q \<notin> punctuation \<and> last q \<notin> punctuation"
    using py_strip_ends [OF ne] by (simp add: q_def set_strip_chars)
  have "list_all (\<lambda>c. \<not> isspace c) p"
    using py_split_pieces [OF p] by simp
  moreover have "set q \<subseteq> set p"
    unfolding q_def by (rule py_strip_subset)
  ultimately have ws: "list_all (\<lambda>c. \<not> isspace c) q"
    by (auto simp: list_all_iff)
  have 1: "t \<noteq> []"
    using qne tq by simp
  have 2: "list_all (\<lambda>c. \<not> isspace c) t"
    using ws by (simp add: tq list_all_iff isspace_lower_char)
  have 3: "hd t \<notin> set strip_chars"
    using ends qne by (simp add: tq hd_map set_strip_chars punctuation_lower_char)
  have 4: "last t \<notin> set strip_chars"
    using ends qne by (simp add: tq last_map set_strip_chars punctuation_lower_char)
  have 5: "lower t = t"
    by (simp add: tq lower_def lower_char_idem)
  from 1 2 3 4 5 show ?thesis by simp
qed

text \<open>
  C2: for every line, \<open>tokenize\<close> splits the line on runs of whitespace, strips the
  characters of the fixed punctuation set from both ends of every piece, lowercases it,
  discards the pieces that are empty after stripping and keeps the order of the line; the
  strip set of the code is that punctuation set, and \<open>"Hello, world!!"\<close> gives
  \<open>["hello", "world"]\<close>.
\<close>

theorem tokenize_refines_specification:
  "tokenize line = spec_tokenize line
   \<and> set strip_chars = punctuation
   \<and> tokenize ''Hello, world!!'' = [''hello'', ''world'']"
proof -
  have "tokenize ''Hello, world!!'' = [''hello'', ''world'']"
    by code_simp
  then show ?thesis
    by (simp add: tokenize_spec set_strip_chars)
qed

text \<open>
  C3, as stated, fails: the hyphen is not in the strip set, so the line \<open>"---!!!"\<close>
  gives the token \<open>"---"\<close>.
\<close>

theorem tokenize_hyphens_counterexample:
  "tokenize ''---!!!'' = [''---''] \<and> tokenize ''---!!!'' \<noteq> []"
  by code_simp

text \<open>
  C3, amended: a line that consists only of characters of the strip set and of whitespace
  gives no tokens.
\<close>

theorem tokenize_only_strip_chars:
  assumes "\<forall>c \<in> set line. c \<in> set strip_chars \<or> isspace c"
  shows "tokenize line = []"
proof -
  have "py_strip strip_chars p = []" if p: "p \<in> set (py_split line)" for p
  proof -
    from py_split_pieces [OF p] have "list_all (\<lambda>c. \<not> isspace c) p" and "set p \<subseteq> set line"
      by simp_all
    with assms have "set p \<subseteq> set strip_chars"
      by (auto simp: list_all_iff)
    then show ?thesis by (rule py_strip_all_in)
  qed
  then show ?thesis
    by (simp add: tokenize_concat)
qed

theorem tokenize_only_strip_chars_witness:
  "list_all (\<lambda>c. c \<in> set strip_chars \<or> isspace c) ''!!! ...'' \<and> tokenize ''!!! ...'' = []"
proof -
  have h: "list_all (\<lambda>c. c \<in> set strip_chars \<or> isspace c) ''!!! ...''"
    by code_simp
  then have "\<forall>c \<in> set ''!!! ...''. c \<in> set strip_chars \<or> isspace c"
    unfolding list_all_iff .
  from tokenize_only_strip_chars [OF this] h show ?thesis by simp
qed

text \<open>
  C9: every token \<open>t\<close> of a line is a fixed point of the tokenizer, \<open>tokenize t = [t]\<close>:
  it is not empty, has no whitespace, neither begins nor ends with a character of the strip
  set, and is its own lowercase.
\<close>

theorem tokenize_idempotent_on_tokens:
  assumes "t \<in> set (tokenize line)"
  shows "tokenize t = [t] \<and> t \<noteq> [] \<and> list_all (\<lambda>c. \<not> isspace c) t
         \<and> hd t \<notin> set strip_chars \<and> last t \<notin> set strip_chars \<and> lower t = t"
proof -
  note s = token_shape [OF assms]
  from s have split: "py_split t = [t]"
    by (intro py_split_single) simp_all
  from s have strip: "py_strip strip_chars t = t"
    by (intro py_strip_fixed) simp_all
  from s have "tokenize t = [t]"
    by (simp add: tokenize_concat split strip)
  with s show ?thesis by simp
qed

theorem tokenize_idempotent_on_tokens_witness:
  "''world'' \<in> set (tokenize ''Hello, world!!'') \<and> tokenize ''world'' = [''world'']"
proof -
  have m: "''world'' \<in> set (tokenize ''Hello, world!!'')"
    by code_simp
  from tokenize_idempotent_on_tokens [OF m] m show ?thesis by simp
qed

section \<open>Properties of the reporter\<close>

lemma most_common_length: "length (most_common n c) = min n (length c)"
  by (simp add: most_common_def min.commute)

lemma most_common_take: "most_common n c = take n (most_common (length c) c)"
  by (simp add: most_common_def)

lemma most_common_all_mset: "mset (most_common (length c) c) = mset c"
  by (simp add: most_common_def)

lemma most_common_all_sorted:
  "sorted_wrt (\<lambda>a b. snd b \<le> snd a) (most_common (length c) c)"
proof -
  have "sorted (map (\<lambda>(word, cnt). - cnt) (sort_key (\<lambda>(word, cnt). - cnt) c))"
    by (rule sorted_sort_key)
  then have "sorted_wrt (\<lambda>a b. (case a of (word, cnt) \<Rightarrow> - cnt) \<le> (case b of (word, cnt) \<Rightarrow> - cnt))
               (sort_key (\<lambda>(word, cnt). - cnt) c)"
    by (simp only: sorted_map)
  then show ?thesis
    by (simp add: most_common_def case_prod_beta)
qed

lemma most_common_all_stable:
  "filter (\<lambda>e. snd e = v) (most_common (length c) c) = filter (\<lambda>e. snd e = v) c"
proof -
  have "filter (\<lambda>e. (case e of (word, cnt) \<Rightarrow> - cnt) = - v) (sort_key (\<lambda>(word, cnt). - cnt) c)
        = filter (\<lambda>e. (case e of (word, cnt) \<Rightarrow> - cnt) = - v) c"
    by (rule sort_key_stable)
  then show ?thesis
    by (simp add: most_common_def case_prod_beta)
qed

lemma print_stats_entries:
  "print_stats line_count word_count char_count counter =
     [''Lines: '' @ str_int line_count,
      ''Words: '' @ str_int word_count,
      ''Characters: '' @ str_int char_count,
      ''Top 5 words:'']
     @ map (\<lambda>(word, cnt). ''  '' @ py_repr word @ '': '' @ str_int cnt) (most_common 5 counter)"
proof -
  have "concat (map (\<lambda>(word, cnt). [f word cnt]) xs) = map (\<lambda>(word, cnt). f word cnt) xs"
    for f :: "string \<Rightarrow> int \<Rightarrow> string" and xs
    by (induction xs) auto
  then show ?thesis
    by (simp add: print_stats_def)
qed

lemma str_int_0: "str_int 0 = ''0''"
  by code_simp

lemma print_stats_empty:
  "print_stats 0 0 0 [] = [''Lines: 0'', ''Words: 0'', ''Characters: 0'', ''Top 5 words:'']"
  by (simp add: print_stats_entries most_common_def str_int_0)

text \<open>
  C7: for every Counter, \<open>print_stats\<close> writes the three counts, the header
  \<open>Top 5 words:\<close> and one line for each entry of \<open>most_common 5\<close>: at most 5 lines, as
  many as the Counter has keys when these are fewer than 5, and none for the empty Counter.
  The entries are the first five of the whole ranking, which is a permutation of the
  entries, has descending counts, and keeps entries of equal count in the order of the
  Counter.
\<close>

theorem print_stats_top5:
  "print_stats line_count word_count char_count counter =
     [''Lines: '' @ str_int line_count,
      ''Words: '' @ str_int word_count,
      ''Characters: '' @ str_int char_count,
      ''Top 5 words:'']
     @ map (\<lambda>(word, cnt). ''  '' @ py_repr word @ '': '' @ str_int cnt) (most_common 5 counter)
   \<and> length (print_stats line_count word_count char_count counter) = 4 + min 5 (length counter)
   \<and> (distinct (map fst counter) \<longrightarrow>
        length (most_common 5 counter) = min 5 (card (fst ` set counter)))
   \<and> most_common 5 counter = take 5 (most_common (length counter) counter)
   \<and> mset (most_common (length counter) counter) = mset counter
   \<and> sorted_wrt (\<lambda>a b. snd b \<le> snd a) (most_common (length counter) counter)
   \<and> (\<forall>v. filter (\<lambda>e. snd e = v) (most_common (length counter) counter)
            = filter (\<lambda>e. snd e = v) counter)
   \<and> print_stats line_count word_count char_count [] =
       [''Lines: '' @ str_int line_count,
        ''Words: '' @ str_int word_count,
        ''Characters: '' @ str_int char_count,
        ''Top 5 words:'']"
proof (intro conjI allI impI)
  show "print_stats line_count word_count char_count counter =
     [''Lines: '' @ str_int line_count,
      ''Words: '' @ str_int word_count,
      ''Characters: '' @ str_int char_count,
      ''Top 5 words:'']
     @ map (\<lambda>(word, cnt). ''  '' @ py_repr word @ '': '' @ str_int cnt) (most_common 5 counter)"
    by (rule print_stats_entries)
  show "length (print_stats line_count word_count char_count counter) = 4 + min 5 (length counter)"
    by (simp add: print_stats_entries most_common_length)
  show "length (most_common 5 counter) = min 5 (card (fst ` set counter))"
    if "distinct (map fst counter)"
    using distinct_card [OF that] by (simp add: most_common_length)
  show "most_common 5 counter = take 5 (most_common (length counter) counter)"
    by (rule most_common_take)
  show "mset (most_common (length counter) counter) = mset counter"
    by (rule most_common_all_mset)
  show "sorted_wrt (\<lambda>a b. snd b \<le> snd a) (most_common (length counter) counter)"
    by (rule most_common_all_sorted)
  show "filter (\<lambda>e. snd e = v) (most_common (length counter) counter)
          = filter (\<lambda>e. snd e = v) counter" for v
    by (rule most_common_all_stable)
  show "print_stats line_count word_count char_count [] =
       [''Lines: '' @ str_int line_count,
        ''Words: '' @ str_int word_count,
        ''Characters: '' @ str_int char_count,
        ''Top 5 words:'']"
    by (simp add: print_stats_entries most_common_def)
qed

theorem print_stats_top5_witness:
  "distinct (map fst [(''a'', 1::int), (''b'', 3), (''c'', 1), (''d'', 3), (''e'', 2), (''f'', 3)]) \<and>
   most_common 5 [(''a'', 1), (''b'', 3), (''c'', 1), (''d'', 3), (''e'', 2), (''f'', 3)] =
     [(''b'', 3), (''d'', 3), (''f'', 3), (''e'', 2), (''a'', 1)] \<and>
   length (most_common 5 [(''a'', 1), (''b'', 3), (''c'', 1), (''d'', 3), (''e'', 2), (''f'', 3)]) =
     min 5 (card (fst ` set [(''a'', 1::int), (''b'', 3), (''c'', 1), (''d'', 3), (''e'', 2), (''f'', 3)]))"
proof -
  have d: "distinct (map fst [(''a'', 1::int), (''b'', 3), (''c'', 1), (''d'', 3), (''e'', 2), (''f'', 3)])"
    by simp
  have m: "most_common 5 [(''a'', 1), (''b'', 3), (''c'', 1), (''d'', 3), (''e'', 2), (''f'', 3)] =
     [(''b'', 3), (''d'', 3), (''f'', 3), (''e'', 2), (''a'', 1)]"
    by code_simp
  from print_stats_top5 [of 0 0 0 "[(''a'', 1), (''b'', 3), (''c'', 1), (''d'', 3), (''e'', 2), (''f'', 3)]"]
  have "distinct (map fst [(''a'', 1::int), (''b'', 3), (''c'', 1), (''d'', 3), (''e'', 2), (''f'', 3)]) \<longrightarrow>
    length (most_common 5 [(''a'', 1), (''b'', 3), (''c'', 1), (''d'', 3), (''e'', 2), (''f'', 3)]) =
     min 5 (card (fst ` set [(''a'', 1::int), (''b'', 3), (''c'', 1), (''d'', 3), (''e'', 2), (''f'', 3)]))"
    by blast
  with d m show ?thesis by blast
qed

section \<open>Properties of whole runs\<close>

text \<open>
  C4, as stated, fails: the two lines have nine words, not eight.
\<close>

theorem cat_example_word_count_counterexample:
  "fst (snd (text_stats [''the cat sat on the mat'' @ [CHR 0x0A], ''the cat ran'' @ [CHR 0x0A]])) \<noteq> 8"
  by code_simp

text \<open>
  C4, amended: for the lines \<open>"the cat sat on the mat\n"\<close> and \<open>"the cat ran\n"\<close> the line
  count is 2, the word count is 9, and the most common token is \<open>"the"\<close> with count 3,
  followed by \<open>"cat"\<close> with count 2.
\<close>

theorem cat_example:
  "text_stats [''the cat sat on the mat'' @ [CHR 0x0A], ''the cat ran'' @ [CHR 0x0A]] =
     (2, 9, 35, [(''the'', 3), (''cat'', 2), (''sat'', 1), (''on'', 1), (''mat'', 1), (''ran'', 1)])
   \<and> most_common 2 [(''the'', 3), (''cat'', 2), (''sat'', 1), (''on'', 1), (''mat'', 1), (''ran'', 1)]
       = [(''the'', 3), (''cat'', 2)]"
  by code_simp

text \<open>
  C5: the empty sequence of lines is a valid run: \<open>text_stats\<close> returns zero counts and
  the empty Counter, \<open>print_stats\<close> writes \<open>Lines: 0\<close>, \<open>Words: 0\<close>, \<open>Characters: 0\<close> and
  the header \<open>Top 5 words:\<close> with nothing behind it, and the exit status is 0, for empty
  standard input as for an empty file.
\<close>

theorem empty_input_is_valid:
  "text_stats [] = (0, 0, 0, [])
   \<and> print_stats 0 0 0 [] = [''Lines: 0'', ''Words: 0'', ''Characters: 0'', ''Top 5 words:'']
   \<and> main None (w\<lparr>stdin_lines := [], stdin_isatty := False\<rparr>) =
       ([''Lines: 0'', ''Words: 0'', ''Characters: 0'', ''Top 5 words:''], Inr 0)
   \<and> run None (w\<lparr>stdin_lines := [], stdin_isatty := False\<rparr>) =
       ([''Lines: 0'', ''Words: 0'', ''Characters: 0'', ''Top 5 words:''], 0)
   \<and> run (Some ''empty.txt'') (w\<lparr>files := (files w)(''empty.txt'' \<mapsto> [])\<rparr>) =
       ([''Lines: 0'', ''Words: 0'', ''Characters: 0'', ''Top 5 words:''], 0)"
  by (simp add: text_stats_def main_def run_def read_lines_from_stdin_def
      read_lines_from_file_def print_stats_empty)

text \<open>
  The empty string names no file.  The test \<open>if args.path:\<close> takes it for an omitted
  argument, so that this run is the run without a path; the statement on files that cannot
  be opened is therefore about the paths that are not empty.
\<close>

lemma main_empty_path: "main (Some []) w = main None w"
  by (simp add: main_def)



end
